theory Spec2Isabelle
  imports Main
begin

section \<open>Python strings\<close>

text \<open>
  A Python \<open>str\<close> is a sequence of code points and \<open>len\<close> counts code points.
  The model uses \<open>string\<close>, reading each \<open>char\<close> as the code point of the same
  number (U+0000 to U+00FF), so \<open>length\<close> is Python's \<open>len\<close> on these strings.
\<close>

datatype error =
    InvalidCardNumberError
  | InvalidIinError
  | IndexError
  | ProgrammerError

definition is_decimal :: "char \<Rightarrow> bool" where
  \<comment> \<open>the characters \<open>0\<close> .. \<open>9\<close>\<close>
  "is_decimal c = (48 \<le> (of_char c :: nat) \<and> (of_char c :: nat) \<le> 57)"

definition isdigit_char :: "char \<Rightarrow> bool" where
  \<comment> \<open>Python's digit characters below U+0100: \<open>0\<close> .. \<open>9\<close> and the superscript
      digits U+00B2, U+00B3, U+00B9, which \<open>str.isdigit\<close> accepts as well.\<close>
  "isdigit_char c = (is_decimal c \<or> (of_char c :: nat) \<in> {178, 179, 185})"

definition isdigit :: "string \<Rightarrow> bool" where
  \<comment> \<open>\<open>str.isdigit\<close>: at least one character, and every character a digit.\<close>
  "isdigit s = (s \<noteq> [] \<and> list_all isdigit_char s)"

definition py_index :: "string \<Rightarrow> int \<Rightarrow> error + string" where
  \<comment> \<open>\<open>s[i]\<close>: a negative index counts from the end; out of range raises.\<close>
  "py_index s i =
     (let n = int (length s); j = (if i < 0 then i + n else i)
      in if 0 \<le> j \<and> j < n then Inr [s ! nat j] else Inl IndexError)"

definition py_slice :: "string \<Rightarrow> int \<Rightarrow> int \<Rightarrow> string" where
  \<comment> \<open>\<open>s[lo:hi]\<close>: bounds are clamped to the string, a negative bound counts from
      the end; never raises.\<close>
  "py_slice s lo hi =
     (let n = int (length s);
          a = (if lo < 0 then max 0 (lo + n) else min lo n);
          b = (if hi < 0 then max 0 (hi + n) else min hi n)
      in take (nat (b - a)) (drop (nat a) s))"

fun str_nat :: "nat \<Rightarrow> string" where
  \<comment> \<open>\<open>str(n)\<close> for a non-negative integer: its decimal representation.\<close>
  "str_nat n =
     (if n < 10 then [char_of (48 + n)]
      else str_nat (n div 10) @ [char_of (48 + n mod 10)])"

declare str_nat.simps [simp del]

section \<open>The Luhn checksum primitive\<close>

definition digit_val :: "char \<Rightarrow> nat" where
  "digit_val c = of_char c - 48"

fun luhn_weighted :: "bool \<Rightarrow> nat list \<Rightarrow> nat" where
  \<comment> \<open>The digits from the rightmost one leftwards; \<open>dbl\<close> says whether the head is
      one of the doubled positions.\<close>
  "luhn_weighted dbl [] = 0"
| "luhn_weighted dbl (d # ds) =
     (if dbl then (if 10 \<le> 2 * d then 2 * d - 9 else 2 * d) else d)
       + luhn_weighted (\<not> dbl) ds"

definition luhn_sum :: "string \<Rightarrow> nat" where
  "luhn_sum digits = luhn_weighted False (rev (map digit_val digits))"

definition verify :: "string \<Rightarrow> bool" where
  \<comment> \<open>Modelled from the spec: \<open>verify\<close> is imported from the package \<open>baluhn\<close>,
      whose code is not among the sources. Spec 4.1, \<open>Verify\<close>: true iff the input is
      non-empty, has only the characters 0-9, and its Luhn weighted sum, taken from
      the rightmost digit leftwards with every second digit doubled (minus 9 when
      the double reaches 10), is 0 modulo 10; false otherwise, never raising.\<close>
  "verify digits =
     (digits \<noteq> [] \<and> list_all is_decimal digits \<and> luhn_sum digits mod 10 = 0)"

definition generate :: "string \<Rightarrow> error + string" where
  \<comment> \<open>Modelled from the spec: \<open>generate\<close> is imported from the package \<open>baluhn\<close>,
      whose code is not among the sources. Spec 4.1, \<open>ComputeCheckDigit\<close>: the
      weighted sum of the input followed by \<open>0\<close>, then \<open>(10 - (sum mod 10)) mod 10\<close>
      as a string; an input that is empty or not all 0-9 is a programmer error.\<close>
  "generate prefixDigits =
     (if prefixDigits = [] \<or> \<not> list_all is_decimal prefixDigits then Inl ProgrammerError
      else Inr (str_nat ((10 - luhn_sum (prefixDigits @ ''0'') mod 10) mod 10)))"

section \<open>The CreditCard model\<close>

text \<open>
  Every field of the Django model but \<open>is_valid\<close> has \<open>default=None\<close>, so a field
  holds a string or \<open>None\<close>. The declared \<open>max_length\<close> of a field is not enforced
  when an instance is constructed.
\<close>

record CreditCard =
  number :: "string option"
  major_industry_identifier :: "string option"
  issuer_identification_number :: "string option"
  personal_account_number :: "string option"
  check_digit :: "string option"
  is_valid :: bool

definition personal_account_number_max_length :: nat where
  "personal_account_number_max_length = 4"

definition from_number :: "string \<Rightarrow> error + CreditCard" where
  "from_number num =
     (if \<not> isdigit num \<or> \<not> verify num then Inl InvalidCardNumberError
      else
        case py_index num 0 of
          Inl e \<Rightarrow> Inl e
        | Inr mii \<Rightarrow>
            (case py_index num (- 1) of
               Inl e \<Rightarrow> Inl e
             | Inr cd \<Rightarrow>
                 Inr \<lparr> number = Some num,
                       major_industry_identifier = Some mii,
                       issuer_identification_number = Some (py_slice num 0 6),
                       personal_account_number = Some (py_slice num 6 (- 1)),
                       check_digit = Some cd,
                       is_valid = True \<rparr>))"

definition with_invalid_number :: "string \<Rightarrow> CreditCard" where
  "with_invalid_number num =
     \<lparr> number = Some num,
       major_industry_identifier = None,
       issuer_identification_number = None,
       personal_account_number = None,
       check_digit = None,
       is_valid = False \<rparr>"

definition generate_from_iin :: "int \<Rightarrow> (nat \<Rightarrow> nat) \<Rightarrow> string \<Rightarrow> error + CreditCard" where
  \<comment> \<open>\<open>CARD_LENGTH\<close> comes from \<open>constants.py\<close>, which is not among the sources, and
      is a parameter here. \<open>randint k\<close> is the value of the \<open>k\<close>-th call
      \<open>randint(0, 9)\<close>. \<open>range\<close> of a negative number is empty.\<close>
  "generate_from_iin CARD_LENGTH randint iin =
     (if \<not> (0 < length iin \<and> length iin < 3) \<or> \<not> isdigit iin then Inl InvalidIinError
      else
        let middle_digits_len = CARD_LENGTH - int (length iin) - 1;
            middle_digits = map (\<lambda>k. str_nat (randint k)) [0 ..< nat middle_digits_len];
            digits_without_check_digit = iin @ concat middle_digits
        in case generate digits_without_check_digit of
             Inl e \<Rightarrow> Inl e
           | Inr cd \<Rightarrow> from_number (digits_without_check_digit @ cd))"

definition fields_concat :: "CreditCard \<Rightarrow> string option" where
  \<comment> \<open>The left-hand side of the record invariant:
      \<open>major_industry_identifier + issuer_identification_number[1:] +
      personal_account_number + check_digit\<close>, defined when all four are set.\<close>
  "fields_concat r =
     (case (major_industry_identifier r, issuer_identification_number r,
            personal_account_number r, check_digit r) of
        (Some m, Some i, Some p, Some c) \<Rightarrow> Some (m @ drop 1 i @ p @ c)
      | _ \<Rightarrow> None)"

section \<open>Auxiliary facts\<close>

lemma is_decimal_char_of: "(d::nat) < 10 \<Longrightarrow> is_decimal (char_of (48 + d))"
  by (simp add: is_decimal_def)

lemma digit_val_char_of: "d < 10 \<Longrightarrow> digit_val (char_of (48 + d)) = d"
  by (simp add: digit_val_def)

lemma str_nat_digit: "d < 10 \<Longrightarrow> str_nat d = [char_of (48 + d)]"
  by (subst str_nat.simps) simp

lemma str_nat_decimal: "list_all is_decimal (str_nat n)"
proof (induction n rule: str_nat.induct)
  case (1 n)
  show ?case
  proof (cases "n < 10")
    case True
    then show ?thesis by (simp add: str_nat_digit is_decimal_char_of)
  next
    case False
    have "n mod 10 < 10" by simp
    then have "is_decimal (char_of (48 + n mod 10))" by (rule is_decimal_char_of)
    with False 1 show ?thesis by (subst str_nat.simps) simp
  qed
qed

lemma luhn_sum_snoc:
  "luhn_sum (p @ [c]) = digit_val c + luhn_weighted True (rev (map digit_val p))"
  by (simp add: luhn_sum_def)

lemma is_decimal_zero: "is_decimal CHR ''0''" "digit_val CHR ''0'' = 0"
  by (simp_all add: is_decimal_def digit_val_def)

lemma generate_verify:
  assumes "p \<noteq> []" "list_all is_decimal p"
  shows "\<exists>c. generate p = Inr [c] \<and> is_decimal c \<and> verify (p @ [c])"
proof -
  define w where "w = luhn_weighted True (rev (map digit_val p))"
  define d where "d = (10 - w mod 10) mod 10"
  have d10: "d < 10" by (simp add: d_def)
  have s0: "luhn_sum (p @ ''0'') = w" by (simp add: luhn_sum_snoc w_def is_decimal_zero)
  have g: "generate p = Inr [char_of (48 + d)]"
    using assms d10 by (simp add: generate_def s0 d_def str_nat_digit)
  define m where "m = w mod 10"
  have m10: "m < 10" by (simp add: m_def)
  have dm: "d = (10 - m) mod 10" by (simp add: d_def m_def)
  have "(d + m) mod 10 = 0"
    using m10 by (cases "m = 0") (simp_all add: dm)
  moreover have "(d + w) mod 10 = (d + m) mod 10"
    by (simp add: m_def mod_add_right_eq)
  ultimately have "(d + w) mod 10 = 0" by simp
  then have "luhn_sum (p @ [char_of (48 + d)]) mod 10 = 0"
    using d10 by (simp add: luhn_sum_snoc w_def[symmetric] digit_val_char_of)
  then have "verify (p @ [char_of (48 + d)])"
    using assms d10 by (simp add: verify_def is_decimal_char_of)
  with g d10 show ?thesis by (auto simp: is_decimal_char_of)
qed

lemma is_decimal_isdigit_char: "is_decimal c \<Longrightarrow> isdigit_char c"
  by (simp add: isdigit_char_def)

lemma verify_isdigit: "verify s \<Longrightarrow> isdigit s"
  by (auto simp: verify_def isdigit_def list_all_iff is_decimal_isdigit_char)

lemma py_index_first: "s \<noteq> [] \<Longrightarrow> py_index s 0 = Inr [hd s]"
  by (cases s) (simp_all add: py_index_def Let_def)

lemma py_index_last: "s \<noteq> [] \<Longrightarrow> py_index s (- 1) = Inr [last s]"
  by (simp add: py_index_def Let_def last_conv_nth nat_diff_distrib') 

lemma py_slice_iin: "py_slice s 0 6 = take 6 s"
  by (auto simp: py_slice_def Let_def min_def)

lemma py_slice_pan: "py_slice s 6 (- 1) = drop 6 (butlast s)"
  by (auto simp: py_slice_def Let_def min_def max_def butlast_conv_take drop_take nat_diff_distrib')

lemma from_number_eq:
  "from_number s =
     (if verify s then
        Inr \<lparr> number = Some s, major_industry_identifier = Some [hd s],
              issuer_identification_number = Some (take 6 s),
              personal_account_number = Some (drop 6 (butlast s)),
              check_digit = Some [last s], is_valid = True \<rparr>
      else Inl InvalidCardNumberError)"
proof (cases "verify s")
  case True
  then have "s \<noteq> []" by (simp add: verify_def)
  moreover from True have "isdigit s" by (rule verify_isdigit)
  ultimately show ?thesis using True
    by (simp add: from_number_def py_index_first py_index_last py_slice_iin py_slice_pan)
next
  case False
  then show ?thesis by (simp add: from_number_def)
qed

lemma middle_decimal: "list_all is_decimal (concat (map (\<lambda>k. str_nat (f k)) ks))"
  by (induction ks) (simp_all add: str_nat_decimal)

lemma middle_length:
  "\<forall>k. f k \<le> (9::nat) \<Longrightarrow> length (concat (map (\<lambda>k. str_nat (f k)) [0 ..< n])) = n"
proof (induction n)
  case 0
  then show ?case by simp
next
  case (Suc n)
  from Suc.prems have "f n \<le> 9" by blast
  then have "f n < 10" by simp
  then have "length (str_nat (f n)) = 1" by (simp add: str_nat_digit)
  with Suc show ?case by simp
qed

lemma generate_from_iin_decimal:
  assumes "0 < length iin" "length iin < 3" "list_all is_decimal iin"
  shows "\<exists>c. is_decimal c \<and>
           verify (iin @ concat (map (\<lambda>k. str_nat (randint k)) [0 ..< nat (L - int (length iin) - 1)]) @ [c]) \<and>
           generate_from_iin L randint iin =
             from_number (iin @ concat (map (\<lambda>k. str_nat (randint k)) [0 ..< nat (L - int (length iin) - 1)]) @ [c])"
proof -
  define body where
    "body = iin @ concat (map (\<lambda>k. str_nat (randint k)) [0 ..< nat (L - int (length iin) - 1)])"
  from assms have ne: "body \<noteq> []" by (auto simp: body_def)
  from assms have dec: "list_all is_decimal body" by (simp add: body_def middle_decimal)
  from generate_verify [OF ne dec] obtain c
    where c: "generate body = Inr [c]" "is_decimal c" "verify (body @ [c])" by blast
  from assms have dig: "isdigit iin"
    by (auto simp: isdigit_def list_all_iff is_decimal_isdigit_char)
  have "generate_from_iin L randint iin = from_number (body @ [c])"
    using assms dig c(1) by (simp add: generate_from_iin_def Let_def body_def[symmetric])
  with c show ?thesis unfolding body_def by auto
qed

lemma generate_from_iin_not_card_error:
  "generate_from_iin L randint iin \<noteq> Inl InvalidCardNumberError"
proof (cases "\<not> (0 < length iin \<and> length iin < 3) \<or> \<not> isdigit iin")
  case True
  then show ?thesis by (simp add: generate_from_iin_def)
next
  case False
  show ?thesis
  proof (cases "list_all is_decimal iin")
    case True
    with False generate_from_iin_decimal [of iin randint L] obtain c where
      "verify (iin @ concat (map (\<lambda>k. str_nat (randint k)) [0 ..< nat (L - int (length iin) - 1)]) @ [c])"
      "generate_from_iin L randint iin =
         from_number (iin @ concat (map (\<lambda>k. str_nat (randint k)) [0 ..< nat (L - int (length iin) - 1)]) @ [c])"
      by auto
    then show ?thesis by (simp add: from_number_eq)
  next
    case nd: False
    then have "generate (iin @ concat (map (\<lambda>k. str_nat (randint k)) [0 ..< nat (L - int (length iin) - 1)])) = Inl ProgrammerError"
      by (simp add: generate_def)
    with False show ?thesis by (simp add: generate_from_iin_def Let_def)
  qed
qed

lemma verify_decimal: "verify s \<Longrightarrow> s \<noteq> [] \<and> list_all is_decimal s"
  by (simp add: verify_def)

lemma from_number_Inr:
  assumes "from_number s = Inr r"
  shows "verify s"
    and "r = \<lparr> number = Some s, major_industry_identifier = Some [hd s],
              issuer_identification_number = Some (take 6 s),
              personal_account_number = Some (drop 6 (butlast s)),
              check_digit = Some [last s], is_valid = True \<rparr>"
  using assms by (auto simp: from_number_eq split: if_splits)

lemma from_number_Inl: "from_number s = Inl e \<Longrightarrow> e = InvalidCardNumberError"
  by (auto simp: from_number_eq split: if_splits)

lemma slices_partition:
  assumes "7 \<le> length s"
  shows "[hd s] @ drop 1 (take 6 s) @ drop 6 (butlast s) @ [last s] = s"
proof -
  from assms have a: "[hd s] @ drop 1 (take 6 s) = take 6 s" by (cases s) auto
  from assms have d: "drop 6 s \<noteq> []" by simp
  then have "butlast (drop 6 s) @ [last (drop 6 s)] = drop 6 s"
    by (rule append_butlast_last_id)
  moreover from assms have "last (drop 6 s) = last s" by (simp add: last_drop)
  moreover have "butlast (drop 6 s) = drop 6 (butlast s)" by (rule butlast_drop)
  ultimately have b: "drop 6 (butlast s) @ [last s] = drop 6 s"
    by (simp only:)
  have "[hd s] @ drop 1 (take 6 s) @ drop 6 (butlast s) @ [last s]
      = ([hd s] @ drop 1 (take 6 s)) @ (drop 6 (butlast s) @ [last s])" by simp
  also have "\<dots> = take 6 s @ drop 6 s" by (simp only: a b)
  finally show ?thesis by simp
qed

lemma generate_from_iin_Inr:
  assumes "generate_from_iin L randint iin = Inr r"
  shows "\<exists>c. from_number (iin @ concat (map (\<lambda>k. str_nat (randint k)) [0 ..< nat (L - int (length iin) - 1)]) @ c) = Inr r
           \<and> generate (iin @ concat (map (\<lambda>k. str_nat (randint k)) [0 ..< nat (L - int (length iin) - 1)])) = Inr c
           \<and> 0 < length iin \<and> length iin < 3 \<and> isdigit iin"
  using assms
  by (auto simp: generate_from_iin_def Let_def split: if_splits sum.splits)

lemma generate_length: "generate p = Inr c \<Longrightarrow> length c = 1"
  by (auto simp: generate_def str_nat_digit split: if_splits)

lemma from_number_is_valid: "from_number s = Inr r \<Longrightarrow> is_valid r \<and> number r = Some s"
  using from_number_Inr(2) [of s r] by simp

lemma py_slice_6_15: "length s = 16 \<Longrightarrow> py_slice s 6 15 = drop 6 (butlast s)"
  by (simp add: py_slice_def Let_def butlast_conv_take drop_take)

lemma generate_Inl: "generate p = Inl e \<Longrightarrow> e = ProgrammerError"
  by (auto simp: generate_def split: if_splits)

lemma superscript_two:
  "\<not> is_decimal (CHR 0xB2)" "isdigit_char (CHR 0xB2)" "isdigit [CHR 0xB2]"
  by (simp_all add: is_decimal_def isdigit_char_def isdigit_def)

lemma generate_from_iin_guard_passed:
  assumes "0 < length iin" "length iin < 3" "isdigit iin"
  shows "generate_from_iin L randint iin \<noteq> Inl InvalidIinError"
proof
  assume a: "generate_from_iin L randint iin = Inl InvalidIinError"
  define body where
    "body = iin @ concat (map (\<lambda>k. str_nat (randint k)) [0 ..< nat (L - int (length iin) - 1)])"
  show False
  proof (cases "generate body")
    case (Inl e)
    with assms have "generate_from_iin L randint iin = Inl e"
      by (simp add: generate_from_iin_def Let_def body_def[symmetric])
    moreover from Inl have "e = ProgrammerError" by (rule generate_Inl)
    ultimately show False using a by simp
  next
    case (Inr c)
    with assms have "generate_from_iin L randint iin = from_number (body @ c)"
      by (simp add: generate_from_iin_def Let_def body_def[symmetric])
    with a have "from_number (body @ c) = Inl InvalidIinError" by simp
    then have "InvalidIinError = InvalidCardNumberError" by (rule from_number_Inl)
    then show False by simp
  qed
qed

lemma generate_from_iin_step5:
  assumes "0 < length iin" "length iin < 3" "list_all is_decimal iin"
  shows "\<exists>d. generate (iin @ concat (map (\<lambda>k. str_nat (randint k)) [0 ..< nat (L - int (length iin) - 1)])) = Inr d \<and>
           verify (iin @ concat (map (\<lambda>k. str_nat (randint k)) [0 ..< nat (L - int (length iin) - 1)]) @ d) \<and>
           generate_from_iin L randint iin =
             from_number (iin @ concat (map (\<lambda>k. str_nat (randint k)) [0 ..< nat (L - int (length iin) - 1)]) @ d)"
proof -
  define body where
    "body = iin @ concat (map (\<lambda>k. str_nat (randint k)) [0 ..< nat (L - int (length iin) - 1)])"
  from assms have ne: "body \<noteq> []" by (auto simp: body_def)
  from assms have dec: "list_all is_decimal body" by (simp add: body_def middle_decimal)
  from generate_verify [OF ne dec] obtain c
    where c: "generate body = Inr [c]" "verify (body @ [c])" by blast
  from assms have dig: "isdigit iin"
    by (auto simp: isdigit_def list_all_iff is_decimal_isdigit_char)
  have "generate_from_iin L randint iin = from_number (body @ [c])"
    using assms dig c(1) by (simp add: generate_from_iin_def Let_def body_def[symmetric])
  with c have "generate body = Inr [c] \<and> verify (body @ [c]) \<and>
      generate_from_iin L randint iin = from_number (body @ [c])" by simp
  then have "\<exists>d. generate body = Inr d \<and> verify (body @ d) \<and>
      generate_from_iin L randint iin = from_number (body @ d)" by blast
  then show ?thesis unfolding body_def by simp
qed

section \<open>The claims\<close>

text \<open>
  C1. For every non-empty string \<open>p\<close> of the characters 0-9, \<open>generate p\<close> returns a
  check digit \<open>d\<close>, \<open>verify (p + d)\<close> is true and \<open>from_number (p + d)\<close> succeeds.
  Consequently, in \<open>generate_from_iin\<close>, for every prefix of one or two characters
  0-9, every card length and every sequence of random draws: the check digit \<open>d\<close> of
  the body (prefix + middle digits) is computed, \<open>verify (body + d)\<close> is true, the
  final call \<open>from_number (body + d)\<close> succeeds, and its valid record, whose number
  is \<open>body + d\<close>, is what \<open>generate_from_iin\<close> returns. For no input at all does
  \<open>generate_from_iin\<close> raise \<open>InvalidCardNumberError\<close>.
\<close>

theorem check_digit_makes_verify_true:
  "(p \<noteq> [] \<and> list_all is_decimal p \<longrightarrow>
      (\<exists>d. generate p = Inr d \<and> verify (p @ d) \<and>
           (\<exists>r. from_number (p @ d) = Inr r \<and> number r = Some (p @ d) \<and> is_valid r))) \<and>
   (0 < length iin \<and> length iin < 3 \<and> list_all is_decimal iin \<longrightarrow>
      (\<exists>d r. generate (iin @ concat (map (\<lambda>k. str_nat (randint k))
                                       [0 ..< nat (L - int (length iin) - 1)])) = Inr d \<and>
             verify (iin @ concat (map (\<lambda>k. str_nat (randint k))
                                       [0 ..< nat (L - int (length iin) - 1)]) @ d) \<and>
             from_number (iin @ concat (map (\<lambda>k. str_nat (randint k))
                                       [0 ..< nat (L - int (length iin) - 1)]) @ d) = Inr r \<and>
             generate_from_iin L randint iin = Inr r \<and>
             number r = Some (iin @ concat (map (\<lambda>k. str_nat (randint k))
                                       [0 ..< nat (L - int (length iin) - 1)]) @ d) \<and>
             is_valid r)) \<and>
   generate_from_iin L randint iin \<noteq> Inl InvalidCardNumberError"
proof (rule conjI; (rule conjI)?)
  show "p \<noteq> [] \<and> list_all is_decimal p \<longrightarrow>
      (\<exists>d. generate p = Inr d \<and> verify (p @ d) \<and>
           (\<exists>r. from_number (p @ d) = Inr r \<and> number r = Some (p @ d) \<and> is_valid r))"
  proof
    assume "p \<noteq> [] \<and> list_all is_decimal p"
    then obtain c where c: "generate p = Inr [c]" "verify (p @ [c])"
      using generate_verify [of p] by blast
    from c(2) have "\<exists>r. from_number (p @ [c]) = Inr r \<and> number r = Some (p @ [c]) \<and> is_valid r"
      by (simp add: from_number_eq)
    with c show "\<exists>d. generate p = Inr d \<and> verify (p @ d) \<and>
           (\<exists>r. from_number (p @ d) = Inr r \<and> number r = Some (p @ d) \<and> is_valid r)"
      by blast
  qed
next
  define body where
    "body = iin @ concat (map (\<lambda>k. str_nat (randint k)) [0 ..< nat (L - int (length iin) - 1)])"
  have "0 < length iin \<and> length iin < 3 \<and> list_all is_decimal iin \<longrightarrow>
      (\<exists>d r. generate body = Inr d \<and> verify (body @ d) \<and> from_number (body @ d) = Inr r \<and>
             generate_from_iin L randint iin = Inr r \<and> number r = Some (body @ d) \<and> is_valid r)"
  proof
    assume "0 < length iin \<and> length iin < 3 \<and> list_all is_decimal iin"
    then obtain d where d: "generate body = Inr d" "verify (body @ d)"
        "generate_from_iin L randint iin = from_number (body @ d)"
      using generate_from_iin_step5 [of iin randint L] by (auto simp: body_def)
    from d(2) obtain r where r: "from_number (body @ d) = Inr r" "number r = Some (body @ d)" "is_valid r"
      by (simp add: from_number_eq)
    from d r show "\<exists>d r. generate body = Inr d \<and> verify (body @ d) \<and> from_number (body @ d) = Inr r \<and>
             generate_from_iin L randint iin = Inr r \<and> number r = Some (body @ d) \<and> is_valid r"
      by auto
  qed
  then show "0 < length iin \<and> length iin < 3 \<and> list_all is_decimal iin \<longrightarrow>
      (\<exists>d r. generate (iin @ concat (map (\<lambda>k. str_nat (randint k))
                                       [0 ..< nat (L - int (length iin) - 1)])) = Inr d \<and>
             verify (iin @ concat (map (\<lambda>k. str_nat (randint k))
                                       [0 ..< nat (L - int (length iin) - 1)]) @ d) \<and>
             from_number (iin @ concat (map (\<lambda>k. str_nat (randint k))
                                       [0 ..< nat (L - int (length iin) - 1)]) @ d) = Inr r \<and>
             generate_from_iin L randint iin = Inr r \<and>
             number r = Some (iin @ concat (map (\<lambda>k. str_nat (randint k))
                                       [0 ..< nat (L - int (length iin) - 1)]) @ d) \<and>
             is_valid r)"
    unfolding body_def by simp
next
  show "generate_from_iin L randint iin \<noteq> Inl InvalidCardNumberError"
    by (rule generate_from_iin_not_card_error)
qed

theorem check_digit_makes_verify_true_witness:
  "(\<exists>d. generate ''7992739871'' = Inr d \<and> verify (''7992739871'' @ d) \<and>
        (\<exists>r. from_number (''7992739871'' @ d) = Inr r \<and>
             number r = Some (''7992739871'' @ d) \<and> is_valid r)) \<and>
   (\<exists>d r. generate (''45'' @ concat (map (\<lambda>k. str_nat 7) [0 ..< nat (16 - int (length ''45'') - 1)])) = Inr d \<and>
          verify (''45'' @ concat (map (\<lambda>k. str_nat 7) [0 ..< nat (16 - int (length ''45'') - 1)]) @ d) \<and>
          from_number (''45'' @ concat (map (\<lambda>k. str_nat 7) [0 ..< nat (16 - int (length ''45'') - 1)]) @ d) = Inr r \<and>
          generate_from_iin 16 (\<lambda>k. 7) ''45'' = Inr r \<and>
          number r = Some (''45'' @ concat (map (\<lambda>k. str_nat 7) [0 ..< nat (16 - int (length ''45'') - 1)]) @ d) \<and>
          is_valid r) \<and>
   generate_from_iin 16 (\<lambda>k. 7) ''45'' =
     Inr \<lparr> number = Some ''4577777777777770'',
           major_industry_identifier = Some ''4'',
           issuer_identification_number = Some ''457777'',
           personal_account_number = Some ''777777777'',
           check_digit = Some ''0'', is_valid = True \<rparr>"
proof -
  have h1: "''7992739871'' \<noteq> [] \<and> list_all is_decimal ''7992739871''"
    by (simp add: is_decimal_def)
  have h2: "0 < length ''45'' \<and> length ''45'' < 3 \<and> list_all is_decimal ''45''"
    by (simp add: is_decimal_def)
  have e: "generate_from_iin 16 (\<lambda>k. 7) ''45'' =
     Inr \<lparr> number = Some ''4577777777777770'',
           major_industry_identifier = Some ''4'',
           issuer_identification_number = Some ''457777'',
           personal_account_number = Some ''777777777'',
           check_digit = Some ''0'', is_valid = True \<rparr>"
    by code_simp
  note t = check_digit_makes_verify_true [of "''7992739871''" "''45''" "\<lambda>k. 7" 16]
  from t h1 have a: "\<exists>d. generate ''7992739871'' = Inr d \<and> verify (''7992739871'' @ d) \<and>
        (\<exists>r. from_number (''7992739871'' @ d) = Inr r \<and>
             number r = Some (''7992739871'' @ d) \<and> is_valid r)"
    by blast
  from t h2 have b: "\<exists>d r. generate (''45'' @ concat (map (\<lambda>k. str_nat 7) [0 ..< nat (16 - int (length ''45'') - 1)])) = Inr d \<and>
          verify (''45'' @ concat (map (\<lambda>k. str_nat 7) [0 ..< nat (16 - int (length ''45'') - 1)]) @ d) \<and>
          from_number (''45'' @ concat (map (\<lambda>k. str_nat 7) [0 ..< nat (16 - int (length ''45'') - 1)]) @ d) = Inr r \<and>
          generate_from_iin 16 (\<lambda>k. 7) ''45'' = Inr r \<and>
          number r = Some (''45'' @ concat (map (\<lambda>k. str_nat 7) [0 ..< nat (16 - int (length ''45'') - 1)]) @ d) \<and>
          is_valid r"
    by blast
  from a b e show ?thesis by (intro conjI)
qed

text \<open>
  C2. For every string, \<open>from_number\<close> raises \<open>InvalidCardNumberError\<close> exactly when
  the string is not made of the characters 0-9 only or \<open>verify\<close> is false on it, and
  it raises nothing else. No length check is applied: every non-empty string of the
  characters 0-9 whose Luhn weighted sum is divisible by 10 is accepted, whatever
  its length.
\<close>

theorem from_number_fails_iff:
  "(from_number num = Inl InvalidCardNumberError \<longleftrightarrow>
      \<not> list_all is_decimal num \<or> \<not> verify num) \<and>
   (\<forall>e. from_number num = Inl e \<longrightarrow> e = InvalidCardNumberError) \<and>
   (num \<noteq> [] \<and> list_all is_decimal num \<and> luhn_sum num mod 10 = 0 \<longrightarrow>
      (\<exists>r. from_number num = Inr r \<and> number r = Some num \<and> is_valid r))"
proof (intro conjI allI impI)
  show "from_number num = Inl InvalidCardNumberError \<longleftrightarrow>
      \<not> list_all is_decimal num \<or> \<not> verify num"
    by (auto simp: from_number_eq dest: verify_decimal)
next
  fix e assume "from_number num = Inl e"
  then show "e = InvalidCardNumberError" by (rule from_number_Inl)
next
  assume "num \<noteq> [] \<and> list_all is_decimal num \<and> luhn_sum num mod 10 = 0"
  then have "verify num" by (simp add: verify_def)
  then show "\<exists>r. from_number num = Inr r \<and> number r = Some num \<and> is_valid r"
    by (simp add: from_number_eq)
qed

theorem from_number_fails_iff_witness:
  "from_number ''18'' \<noteq> Inl InvalidCardNumberError \<and>
   (\<exists>r. from_number ''18'' = Inr r \<and> number r = Some ''18'' \<and> is_valid r) \<and>
   from_number ''4503495455532271x'' = Inl InvalidCardNumberError"
  using from_number_fails_iff [of "''18''"] from_number_fails_iff [of "''4503495455532271x''"]
  by (simp add: is_decimal_def luhn_sum_def digit_val_def verify_def)

text \<open>
  C3. \<open>from_number\<close> on 4503495455532271 succeeds; the record has major industry
  identifier 4, issuer identification number 450349, personal account number
  545553227, check digit 1, and \<open>is_valid\<close> true.
\<close>

theorem from_number_example:
  "from_number ''4503495455532271'' =
     Inr \<lparr> number = Some ''4503495455532271'',
           major_industry_identifier = Some ''4'',
           issuer_identification_number = Some ''450349'',
           personal_account_number = Some ''545553227'',
           check_digit = Some ''1'',
           is_valid = True \<rparr>"
  by code_simp

theorem from_number_example_witness:
  "\<exists>r. from_number ''4503495455532271'' = Inr r \<and> is_valid r \<and>
       personal_account_number r = Some ''545553227''"
  using from_number_example by simp

text \<open>
  The record invariant as the specification states it fails for a short number:
  \<open>from_number\<close> accepts the one-character string 0, whose fields concatenate to 00,
  and whose length is not 16.
\<close>

theorem record_invariant_counterexample:
  "from_number ''0'' =
     Inr \<lparr> number = Some ''0'', major_industry_identifier = Some ''0'',
           issuer_identification_number = Some ''0'', personal_account_number = Some [],
           check_digit = Some ''0'', is_valid = True \<rparr> \<and>
   fields_concat \<lparr> number = Some ''0'', major_industry_identifier = Some ''0'',
           issuer_identification_number = Some ''0'', personal_account_number = Some [],
           check_digit = Some ''0'', is_valid = True \<rparr> = Some ''00'' \<and>
   length ''0'' \<noteq> (16::nat)"
proof -
  have "from_number ''0'' =
     Inr \<lparr> number = Some ''0'', major_industry_identifier = Some ''0'',
           issuer_identification_number = Some ''0'', personal_account_number = Some [],
           check_digit = Some ''0'', is_valid = True \<rparr>"
    by code_simp
  then show ?thesis by (simp add: fields_concat_def)
qed

text \<open>
  C4 (amended). For every record that \<open>from_number\<close> returns for a string of at
  least 7 characters, \<open>is_valid\<close> is true and major industry identifier +
  issuer identification number[1:] + personal account number + check digit equals
  the number. For every record that \<open>generate_from_iin\<close> returns with a card length
  of at least 7 and random draws in 0..9, the same holds and the length of the
  number is the card length. \<open>from_number\<close> itself applies no length check.
\<close>

theorem record_invariant:
  "(from_number num = Inr r \<and> 7 \<le> length num \<longrightarrow>
      is_valid r \<and> number r = Some num \<and> fields_concat r = Some num) \<and>
   ((\<forall>k. randint k \<le> 9) \<and> 7 \<le> L \<and> generate_from_iin L randint iin = Inr r' \<longrightarrow>
      is_valid r' \<and> fields_concat r' = number r' \<and>
      (\<exists>ds. number r' = Some ds \<and> int (length ds) = L))"
proof (rule conjI; rule impI)
  assume a: "from_number num = Inr r \<and> 7 \<le> length num"
  then have "r = \<lparr> number = Some num, major_industry_identifier = Some [hd num],
              issuer_identification_number = Some (take 6 num),
              personal_account_number = Some (drop 6 (butlast num)),
              check_digit = Some [last num], is_valid = True \<rparr>"
    using from_number_Inr(2) [of num r] by simp
  moreover from a have "[hd num] @ drop 1 (take 6 num) @ drop 6 (butlast num) @ [last num] = num"
    using slices_partition [of num] by simp
  ultimately show "is_valid r \<and> number r = Some num \<and> fields_concat r = Some num"
    by (simp add: fields_concat_def)
next
  assume a: "(\<forall>k. randint k \<le> 9) \<and> 7 \<le> L \<and> generate_from_iin L randint iin = Inr r'"
  define mid where "mid = concat (map (\<lambda>k. str_nat (randint k)) [0 ..< nat (L - int (length iin) - 1)])"
  from a generate_from_iin_Inr [of L randint iin r'] obtain c where
    c: "from_number (iin @ mid @ c) = Inr r'" "generate (iin @ mid) = Inr c"
       "0 < length iin" "length iin < 3"
    unfolding mid_def by auto
  from a have "length mid = nat (L - int (length iin) - 1)"
    unfolding mid_def by (simp add: middle_length)
  moreover from c(2) have "length c = 1" by (rule generate_length)
  ultimately have len: "int (length (iin @ mid @ c)) = L" using a c(3,4) by simp
  with a have seven: "7 \<le> length (iin @ mid @ c)" by linarith
  from c(1) have r': "r' = \<lparr> number = Some (iin @ mid @ c), major_industry_identifier = Some [hd (iin @ mid @ c)],
              issuer_identification_number = Some (take 6 (iin @ mid @ c)),
              personal_account_number = Some (drop 6 (butlast (iin @ mid @ c))),
              check_digit = Some [last (iin @ mid @ c)], is_valid = True \<rparr>"
    by (rule from_number_Inr(2))
  from seven have "[hd (iin @ mid @ c)] @ drop 1 (take 6 (iin @ mid @ c)) @ drop 6 (butlast (iin @ mid @ c)) @ [last (iin @ mid @ c)] = iin @ mid @ c"
    by (rule slices_partition)
  with r' len show "is_valid r' \<and> fields_concat r' = number r' \<and>
      (\<exists>ds. number r' = Some ds \<and> int (length ds) = L)"
    by (simp add: fields_concat_def)
qed

theorem record_invariant_witness:
  "from_number ''4503495455532271'' =
     Inr \<lparr> number = Some ''4503495455532271'',
           major_industry_identifier = Some ''4'',
           issuer_identification_number = Some ''450349'',
           personal_account_number = Some ''545553227'',
           check_digit = Some ''1'', is_valid = True \<rparr> \<and>
   fields_concat \<lparr> number = Some ''4503495455532271'',
           major_industry_identifier = Some ''4'',
           issuer_identification_number = Some ''450349'',
           personal_account_number = Some ''545553227'',
           check_digit = Some ''1'', is_valid = True \<rparr> = Some ''4503495455532271'' \<and>
   generate_from_iin 16 (\<lambda>k. 7) ''45'' =
     Inr \<lparr> number = Some ''4577777777777770'',
           major_industry_identifier = Some ''4'',
           issuer_identification_number = Some ''457777'',
           personal_account_number = Some ''777777777'',
           check_digit = Some ''0'', is_valid = True \<rparr> \<and>
   fields_concat \<lparr> number = Some ''4577777777777770'',
           major_industry_identifier = Some ''4'',
           issuer_identification_number = Some ''457777'',
           personal_account_number = Some ''777777777'',
           check_digit = Some ''0'', is_valid = True \<rparr> = Some ''4577777777777770'' \<and>
   int (length ''4577777777777770'') = 16"
proof -
  have e1: "from_number ''4503495455532271'' =
     Inr \<lparr> number = Some ''4503495455532271'',
           major_industry_identifier = Some ''4'',
           issuer_identification_number = Some ''450349'',
           personal_account_number = Some ''545553227'',
           check_digit = Some ''1'', is_valid = True \<rparr>"
    by code_simp
  have e2: "generate_from_iin 16 (\<lambda>k. 7) ''45'' =
     Inr \<lparr> number = Some ''4577777777777770'',
           major_industry_identifier = Some ''4'',
           issuer_identification_number = Some ''457777'',
           personal_account_number = Some ''777777777'',
           check_digit = Some ''0'', is_valid = True \<rparr>"
    by code_simp
  from record_invariant [of "''4503495455532271''" _ "\<lambda>k. 7" 16 "''45''", unfolded e1 e2]
  show ?thesis using e1 e2 by simp
qed

text \<open>
  C5. For every sequence of random draws in 0..9, \<open>generate_from_iin\<close> with card
  length 16 and prefix 45 returns a valid record whose number starts with 45, has
  length 16, and passes \<open>verify\<close>.
\<close>

theorem generate_from_45:
  assumes "\<forall>k. randint k \<le> 9"
  shows "\<exists>r ds. generate_from_iin 16 randint ''45'' = Inr r \<and> is_valid r \<and>
           number r = Some ds \<and> take 2 ds = ''45'' \<and> length ds = 16 \<and> verify ds"
proof -
  define mid where "mid = concat (map (\<lambda>k. str_nat (randint k)) [0 ..< 13])"
  have "list_all is_decimal ''45''" by (simp add: is_decimal_def)
  with generate_from_iin_decimal [of "''45''" randint 16] obtain c where
    c: "verify (''45'' @ mid @ [c])"
       "generate_from_iin 16 randint ''45'' = from_number (''45'' @ mid @ [c])"
    unfolding mid_def by auto
  from assms have "length mid = 13" unfolding mid_def by (rule middle_length)
  then have "length (''45'' @ mid @ [c]) = 16" "take 2 (''45'' @ mid @ [c]) = ''45''"
    by simp_all
  moreover from c have "generate_from_iin 16 randint ''45'' =
      Inr \<lparr> number = Some (''45'' @ mid @ [c]),
            major_industry_identifier = Some [hd (''45'' @ mid @ [c])],
            issuer_identification_number = Some (take 6 (''45'' @ mid @ [c])),
            personal_account_number = Some (drop 6 (butlast (''45'' @ mid @ [c]))),
            check_digit = Some [last (''45'' @ mid @ [c])], is_valid = True \<rparr>"
    by (simp only: from_number_eq if_True)
  ultimately show ?thesis using c(1) by auto
qed

theorem generate_from_45_witness:
  "\<exists>r ds. generate_from_iin 16 (\<lambda>k. k mod 10) ''45'' = Inr r \<and> is_valid r \<and>
           number r = Some ds \<and> take 2 ds = ''45'' \<and> length ds = 16 \<and> verify ds"
proof -
  have h: "\<forall>k::nat. k mod 10 \<le> 9"
  proof
    fix k :: nat
    have "k mod 10 < 10" by simp
    then show "k mod 10 \<le> 9" by linarith
  qed
  show ?thesis by (rule generate_from_45 [OF h])
qed

text \<open>
  C6. What the guard of \<open>generate_from_iin\<close> does: \<open>InvalidIinError\<close> is raised exactly
  when the length of the prefix is not 1 or 2 or \<open>str.isdigit\<close> is false on it. The
  empty string, 123 and a are rejected so. The prefix made of the superscript two
  (U+00B2) is not made of the characters 0-9 and has length 1, yet it passes the
  guard, since \<open>str.isdigit\<close> accepts it, and the call ends in the error of the check
  digit computation instead of \<open>InvalidIinError\<close>.
\<close>

theorem generate_from_iin_guard:
  "(generate_from_iin L randint iin = Inl InvalidIinError \<longleftrightarrow>
      \<not> (1 \<le> length iin \<and> length iin \<le> 2) \<or> \<not> isdigit iin) \<and>
   generate_from_iin L randint [] = Inl InvalidIinError \<and>
   generate_from_iin L randint ''123'' = Inl InvalidIinError \<and>
   generate_from_iin L randint ''a'' = Inl InvalidIinError \<and>
   \<not> is_decimal (CHR 0xB2) \<and> length [CHR 0xB2] = 1 \<and>
   generate_from_iin L randint [CHR 0xB2] = Inl ProgrammerError"
proof -
  have iff: "generate_from_iin L randint iin = Inl InvalidIinError \<longleftrightarrow>
      \<not> (1 \<le> length iin \<and> length iin \<le> 2) \<or> \<not> isdigit iin"
  proof (cases "0 < length iin \<and> length iin < 3 \<and> isdigit iin")
    case True
    then have "generate_from_iin L randint iin \<noteq> Inl InvalidIinError"
      using generate_from_iin_guard_passed [of iin L randint] by simp
    moreover from True have "1 \<le> length iin \<and> length iin \<le> 2" by (cases iin) auto
    ultimately show ?thesis using True by blast
  next
    case False
    then have "generate_from_iin L randint iin = Inl InvalidIinError"
      by (auto simp: generate_from_iin_def)
    moreover from False have "\<not> (1 \<le> length iin \<and> length iin \<le> 2) \<or> \<not> isdigit iin"
      by (cases iin) auto
    ultimately show ?thesis by blast
  qed
  have e: "generate_from_iin L randint [] = Inl InvalidIinError"
    "generate_from_iin L randint ''123'' = Inl InvalidIinError"
    by (simp_all add: generate_from_iin_def)
  have "\<not> isdigit ''a''" by (simp add: isdigit_def isdigit_char_def is_decimal_def)
  then have a: "generate_from_iin L randint ''a'' = Inl InvalidIinError"
    by (simp add: generate_from_iin_def)
  have "generate (CHR 0xB2 # concat (map (\<lambda>k. str_nat (randint k)) [0 ..< nat (L - 1 - 1)]))
          = Inl ProgrammerError"
    using superscript_two(1) by (simp add: generate_def)
  then have s: "generate_from_iin L randint [CHR 0xB2] = Inl ProgrammerError"
    using superscript_two(3) by (simp add: generate_from_iin_def Let_def)
  from iff e a s superscript_two(1) show ?thesis by simp
qed

theorem generate_from_iin_guard_witness:
  "generate_from_iin 16 (\<lambda>k. 7) [CHR 0xB2] = Inl ProgrammerError \<and>
   generate_from_iin 16 (\<lambda>k. 7) ''123'' = Inl InvalidIinError \<and>
   generate_from_iin 16 (\<lambda>k. 7) ''45'' \<noteq> Inl InvalidIinError"
  using generate_from_iin_guard [of 16 "\<lambda>k. 7" "''45''"]
  by (simp add: isdigit_def isdigit_char_def is_decimal_def)

text \<open>
  C7. Round trip: whenever \<open>generate_from_iin\<close> returns a record, for any card length,
  prefix and random draws, \<open>from_number\<close> on the number of that record succeeds and
  returns the same record, equal in every field.
\<close>

theorem from_number_round_trip:
  "generate_from_iin L randint iin = Inr r \<Longrightarrow>
     \<exists>ds. number r = Some ds \<and> from_number ds = Inr r"
proof -
  assume "generate_from_iin L randint iin = Inr r"
  then obtain x where x: "from_number x = Inr r"
    using generate_from_iin_Inr [of L randint iin r] by blast
  then have "number r = Some x" using from_number_is_valid [of x r] by simp
  with x show ?thesis by simp
qed

theorem from_number_round_trip_witness:
  "generate_from_iin 16 (\<lambda>k. 7) ''45'' =
     Inr \<lparr> number = Some ''4577777777777770'',
           major_industry_identifier = Some ''4'',
           issuer_identification_number = Some ''457777'',
           personal_account_number = Some ''777777777'',
           check_digit = Some ''0'', is_valid = True \<rparr> \<and>
   from_number ''4577777777777770'' = 
     Inr \<lparr> number = Some ''4577777777777770'',
           major_industry_identifier = Some ''4'',
           issuer_identification_number = Some ''457777'',
           personal_account_number = Some ''777777777'',
           check_digit = Some ''0'', is_valid = True \<rparr>"
proof -
  have e: "generate_from_iin 16 (\<lambda>k. 7) ''45'' =
     Inr \<lparr> number = Some ''4577777777777770'',
           major_industry_identifier = Some ''4'',
           issuer_identification_number = Some ''457777'',
           personal_account_number = Some ''777777777'',
           check_digit = Some ''0'', is_valid = True \<rparr>"
    by code_simp
  from from_number_round_trip [OF e] obtain ds where
    ds: "Some ''4577777777777770'' = Some ds"
    and f: "from_number ds =
     Inr \<lparr> number = Some ''4577777777777770'',
           major_industry_identifier = Some ''4'',
           issuer_identification_number = Some ''457777'',
           personal_account_number = Some ''777777777'',
           check_digit = Some ''0'', is_valid = True \<rparr>"
    by auto
  from ds have "ds = ''4577777777777770''" by (simp only: option.inject)
  with f e show ?thesis by (simp only: simp_thms)
qed

text \<open>
  C8. For every string, \<open>with_invalid_number\<close> returns the record that carries the
  string as its number, has \<open>is_valid\<close> false and the four structural fields \<open>None\<close>;
  no successful call of \<open>from_number\<close> or \<open>generate_from_iin\<close> returns such a record.
\<close>

theorem invalid_placeholder:
  "with_invalid_number s =
     \<lparr> number = Some s, major_industry_identifier = None,
       issuer_identification_number = None, personal_account_number = None,
       check_digit = None, is_valid = False \<rparr> \<and>
   from_number num \<noteq> Inr (with_invalid_number s) \<and>
   generate_from_iin L randint iin \<noteq> Inr (with_invalid_number s)"
proof -
  have v: "\<not> is_valid (with_invalid_number s)" by (simp add: with_invalid_number_def)
  have a: "from_number x \<noteq> Inr (with_invalid_number s)" for x
    using from_number_is_valid [of x "with_invalid_number s"] v by blast
  have "generate_from_iin L randint iin \<noteq> Inr (with_invalid_number s)"
    using generate_from_iin_Inr [of L randint iin "with_invalid_number s"] a by blast
  with a show ?thesis by (simp add: with_invalid_number_def)
qed

theorem invalid_placeholder_witness:
  "\<not> is_valid (with_invalid_number ''4503495455532271'') \<and>
   number (with_invalid_number ''4503495455532271'') = Some ''4503495455532271'' \<and>
   check_digit (with_invalid_number ''4503495455532271'') = None \<and>
   from_number ''4503495455532271'' \<noteq> Inr (with_invalid_number ''4503495455532271'') \<and>
   generate_from_iin 16 (\<lambda>k. 7) ''45'' \<noteq> Inr (with_invalid_number ''4577777777777770'')"
  using invalid_placeholder [of "''4503495455532271''" "''4503495455532271''" 16 "\<lambda>k. 7" "''45''"]
    invalid_placeholder [of "''4577777777777770''" "''4503495455532271''" 16 "\<lambda>k. 7" "''45''"]
  by (simp add: with_invalid_number_def)

text \<open>
  The issuer identification number of an accepted short number need not have fewer
  than 6 characters: for 000000 it is the whole string, of 6 characters.
\<close>

theorem short_number_counterexample:
  "from_number ''000000'' =
     Inr \<lparr> number = Some ''000000'', major_industry_identifier = Some ''0'',
           issuer_identification_number = Some ''000000'', personal_account_number = Some [],
           check_digit = Some ''0'', is_valid = True \<rparr> \<and>
   \<not> length ''000000'' < (6::nat)"
proof -
  have "from_number ''000000'' =
     Inr \<lparr> number = Some ''000000'', major_industry_identifier = Some ''0'',
           issuer_identification_number = Some ''000000'', personal_account_number = Some [],
           check_digit = Some ''0'', is_valid = True \<rparr>"
    by code_simp
  then show ?thesis by simp
qed

text \<open>
  C9 (amended). For every string of 1 to 6 characters 0-9 whose Luhn weighted sum
  is divisible by 10, \<open>from_number\<close> succeeds with \<open>is_valid\<close> true, the issuer
  identification number is the whole string (at most 6 characters), the personal
  account number is empty and the check digit is the last character; the fields
  overlap: their concatenation is the string followed by its last character, not
  the string.
\<close>

theorem short_number:
  assumes "1 \<le> length s" "length s \<le> 6" "list_all is_decimal s" "luhn_sum s mod 10 = 0"
  shows "\<exists>r. from_number s = Inr r \<and> is_valid r \<and> number r = Some s \<and>
           major_industry_identifier r = Some [hd s] \<and>
           issuer_identification_number r = Some s \<and>
           personal_account_number r = Some [] \<and>
           check_digit r = Some [last s] \<and>
           fields_concat r = Some (s @ [last s]) \<and> fields_concat r \<noteq> number r"
proof -
  from assms have ne: "s \<noteq> []" by auto
  with assms have "verify s" by (simp add: verify_def)
  then have "from_number s =
     Inr \<lparr> number = Some s, major_industry_identifier = Some [hd s],
           issuer_identification_number = Some (take 6 s),
           personal_account_number = Some (drop 6 (butlast s)),
           check_digit = Some [last s], is_valid = True \<rparr>"
    by (simp only: from_number_eq if_True)
  then have r: "from_number s =
     Inr \<lparr> number = Some s, major_industry_identifier = Some [hd s],
           issuer_identification_number = Some s,
           personal_account_number = Some [],
           check_digit = Some [last s], is_valid = True \<rparr>"
    using assms(2) by simp
  from ne have "[hd s] @ drop 1 s = s" by (cases s) simp_all
  then have "[hd s] @ drop 1 s @ [last s] = s @ [last s]" by simp
  then have "fields_concat \<lparr> number = Some s, major_industry_identifier = Some [hd s],
           issuer_identification_number = Some s,
           personal_account_number = Some [],
           check_digit = Some [last s], is_valid = True \<rparr> = Some (s @ [last s])"
    by (simp add: fields_concat_def)
  with r show ?thesis by simp
qed

theorem short_number_witness:
  "\<exists>r. from_number ''18'' = Inr r \<and> is_valid r \<and> number r = Some ''18'' \<and>
       major_industry_identifier r = Some ''1'' \<and>
       issuer_identification_number r = Some ''18'' \<and>
       personal_account_number r = Some [] \<and>
       check_digit r = Some ''8'' \<and>
       fields_concat r = Some ''188''"
proof -
  have "\<exists>r. from_number ''18'' = Inr r \<and> is_valid r \<and> number r = Some ''18'' \<and>
       major_industry_identifier r = Some ''1'' \<and>
       issuer_identification_number r = Some ''18'' \<and>
       personal_account_number r = Some [] \<and>
       check_digit r = Some ''8'' \<and>
       fields_concat r = Some ''188'' \<and> fields_concat r \<noteq> number r"
    using short_number [of "''18''"]
    by (simp add: is_decimal_def luhn_sum_def digit_val_def)
  then show ?thesis by blast
qed

text \<open>
  C10. For every string of 16 characters that \<open>from_number\<close> accepts, the personal
  account number of the record is \<open>num[6:15]\<close>, of length 9, above the declared
  \<open>max_length\<close> of 4 of the field: nothing is truncated.
\<close>

theorem pan_not_truncated:
  assumes "from_number num = Inr r" "length num = 16"
  shows "personal_account_number r = Some (py_slice num 6 15) \<and>
         py_slice num 6 15 = take 9 (drop 6 num) \<and>
         length (py_slice num 6 15) = 9 \<and>
         personal_account_number_max_length < length (py_slice num 6 15)"
proof -
  from assms(1) have "personal_account_number r = Some (drop 6 (butlast num))"
    using from_number_Inr(2) [of num r] by simp
  moreover from assms(2) have "py_slice num 6 15 = drop 6 (butlast num)"
    by (rule py_slice_6_15)
  moreover from assms(2) have "drop 6 (butlast num) = take 9 (drop 6 num)"
    by (simp add: butlast_conv_take drop_take)
  ultimately show ?thesis using assms(2)
    by (simp add: personal_account_number_max_length_def)
qed

theorem pan_not_truncated_witness:
  "(personal_account_number \<lparr> number = Some ''4503495455532271'',
           major_industry_identifier = Some ''4'',
           issuer_identification_number = Some ''450349'',
           personal_account_number = Some ''545553227'',
           check_digit = Some ''1'', is_valid = True \<rparr> = Some (py_slice ''4503495455532271'' 6 15) \<and>
    py_slice ''4503495455532271'' 6 15 = take 9 (drop 6 ''4503495455532271'') \<and>
    length (py_slice ''4503495455532271'' 6 15) = 9 \<and>
    personal_account_number_max_length < length (py_slice ''4503495455532271'' 6 15)) \<and>
   py_slice ''4503495455532271'' 6 15 = ''545553227''"
proof -
  have e: "from_number ''4503495455532271'' =
     Inr \<lparr> number = Some ''4503495455532271'',
           major_industry_identifier = Some ''4'',
           issuer_identification_number = Some ''450349'',
           personal_account_number = Some ''545553227'',
           check_digit = Some ''1'', is_valid = True \<rparr>"
    by code_simp
  have l: "length ''4503495455532271'' = 16" by simp
  have v: "py_slice ''4503495455532271'' 6 15 = ''545553227''" by code_simp
  from pan_not_truncated [OF e l] v show ?thesis by (rule conjI)
qed

end
